theory Spec2Isabelle
  imports Main
begin

section \<open>The query builder and pagination client of query.go\<close>

subsection \<open>Data model\<close>

text \<open>
  A Go \<^verbatim>\<open>string\<close> is a sequence of bytes, as a HOL \<open>string\<close> is. A pointer that may be
  \<^verbatim>\<open>nil\<close> is an option, and so is a slice, whose \<^verbatim>\<open>nil\<close> value differs from an
  empty slice made with \<^verbatim>\<open>make\<close> or decoded from \<^verbatim>\<open>[]\<close>.
\<close>

type_synonym 'a ptr = "'a option"

type_synonym 'a slice = "'a list option"

definition elems :: "'a slice \<Rightarrow> 'a list" where
  "elems s = (case s of None \<Rightarrow> [] | Some xs \<Rightarrow> xs)"

definition len :: "'a slice \<Rightarrow> int" where
  "len s = int (length (elems s))"

definition append_slice :: "'a slice \<Rightarrow> 'a slice \<Rightarrow> 'a slice" where
  \<comment> \<open>\<^verbatim>\<open>append(s, t...)\<close>: appending no element gives \<^verbatim>\<open>s\<close> back, also when it is \<^verbatim>\<open>nil\<close>.\<close>
  "append_slice s t = (if elems t = [] then s else Some (elems s @ elems t))"

datatype numerr = ErrSyntax | ErrRange

datatype error =
    OtherError string
  | NumError string string numerr

text \<open>A call that may panic either returns its results or panics.\<close>

datatype 'a outcome = Returns 'a | Panics

text \<open>
  \<^verbatim>\<open>type query map[string]string\<close>: a Go map is a reference to a mutable table, and
  \<^verbatim>\<open>Where\<close> returns its receiver. The tables live in a store of cells; a query
  value is the address of its cell. \<open>fresh\<close> is the first address \<^verbatim>\<open>make\<close> has not
  handed out. \<open>requests\<close> lists the URLs given to \<^verbatim>\<open>http.Get\<close> so far.
\<close>

type_synonym query = nat

record world =
  cells :: "nat \<Rightarrow> (string \<rightharpoonup> string)"
  fresh :: nat
  requests :: "string list"

type_synonym header = "string \<rightharpoonup> string list"

type_synonym reader = "string \<times> error option"

record response =
  Header :: header
  Body :: reader

text \<open>
  Modelled from the spec: the struct \<^verbatim>\<open>cardResponse\<close> is declared outside query.go; the
  spec gives it two optional slots, a single record and a list of records. The code
  compares the first with \<^verbatim>\<open>nil\<close> and returns the second as a \<^verbatim>\<open>[]*Card\<close>.
  The record type itself is opaque: the type variable \<open>'c\<close>.
\<close>

record 'c cardResponse =
  Card :: "'c ptr"
  Cards :: "'c ptr slice"

text \<open>
  What query.go calls and does not define: \<^verbatim>\<open>http.Get\<close> (its answer may depend on the
  requests made before), \<^verbatim>\<open>checkError\<close>, \<^verbatim>\<open>json.Unmarshal\<close> into a zero
  \<^verbatim>\<open>cardResponse\<close>, and \<^verbatim>\<open>url.Values.Encode\<close>.
\<close>

record 'c env =
  httpGet :: "string list \<Rightarrow> string \<Rightarrow> error + response"
  checkError :: "response \<Rightarrow> error option"
  Unmarshal :: "string \<Rightarrow> error + 'c cardResponse"
  Encode :: "header \<Rightarrow> string"

definition queryURL :: string where
  "queryURL = ''https://api.magicthegathering.io/v1/''"

subsection \<open>Query builder\<close>

definition NewQuery :: "world \<Rightarrow> query \<times> world" where
  "NewQuery w = (fresh w, w\<lparr>cells := (cells w)(fresh w := Map.empty), fresh := Suc (fresh w)\<rparr>)"

definition Copy :: "world \<Rightarrow> query \<Rightarrow> query \<times> world" where
  \<comment> \<open>a new table, then every pair of \<^verbatim>\<open>q\<close> stored into it\<close>
  "Copy w q =
     (let r = fresh w
      in (r, w\<lparr>cells := (cells w)(r := Map.empty ++ cells w q), fresh := Suc (fresh w)\<rparr>))"

definition Where :: "world \<Rightarrow> query \<Rightarrow> string \<Rightarrow> string \<Rightarrow> query \<times> world" where
  "Where w q column qry = (q, w\<lparr>cells := (cells w)(q := (cells w q)(column \<mapsto> qry))\<rparr>)"

definition OrderBy :: "world \<Rightarrow> query \<Rightarrow> string \<Rightarrow> query \<times> world" where
  "OrderBy w q column = (q, w\<lparr>cells := (cells w)(q := (cells w q)(''orderBy'' \<mapsto> column))\<rparr>)"

text \<open>A later mutation of a query, and a run of such mutations, each on a query of its own.\<close>

datatype mutation = MWhere string string | MOrderBy string

fun mutate :: "world \<Rightarrow> query \<times> mutation \<Rightarrow> world" where
  "mutate w (t, MWhere column qry) = snd (Where w t column qry)"
| "mutate w (t, MOrderBy column) = snd (OrderBy w t column)"

definition mutate_all :: "world \<Rightarrow> (query \<times> mutation) list \<Rightarrow> world" where
  "mutate_all w ms = foldl mutate w ms"

subsection \<open>Library functions the code calls\<close>

definition dq :: char where
  "dq = CHR 0x22"

definition nl :: char where
  "nl = CHR 0x0A"

text \<open>
  \<^verbatim>\<open>strings.Split(s, sep)\<close> for a separator of one byte, as the code calls it: the
  pieces between the separators, always at least one.
\<close>

fun Split :: "string \<Rightarrow> char \<Rightarrow> string list" where
  "Split [] sep = [[]]"
| "Split (c # cs) sep =
     (if c = sep then [] # Split cs sep
      else (case Split cs sep of [] \<Rightarrow> [[c]] | p # ps \<Rightarrow> (c # p) # ps))"

text \<open>
  \<^verbatim>\<open>linkRE = regexp.MustCompile(`<(.*)>; rel="(.*)"`)\<close>. Go's \<^verbatim>\<open>regexp\<close> returns the
  leftmost match and, among the matches starting there, the one a backtracking matcher
  finds first; \<^verbatim>\<open>.*\<close> is greedy and \<^verbatim>\<open>.\<close> matches anything but a newline.
  \<open>dotstar k acc s\<close> is \<^verbatim>\<open>(.*)\<close> followed by the rest of the pattern \<open>k\<close>, which receives
  the captured text and the remaining input: it first tries to take one more byte, and
  gives up bytes from the right when the rest does not match.
\<close>

fun strip_prefix :: "string \<Rightarrow> string \<Rightarrow> string option" where
  "strip_prefix [] s = Some s"
| "strip_prefix (p # ps) [] = None"
| "strip_prefix (p # ps) (c # cs) = (if p = c then strip_prefix ps cs else None)"

fun dotstar :: "(string \<Rightarrow> string \<Rightarrow> 'a option) \<Rightarrow> string \<Rightarrow> string \<Rightarrow> 'a option" where
  "dotstar k acc [] = k acc []"
| "dotstar k acc (c # cs) =
     (if c = nl then k acc (c # cs)
      else (case dotstar k (acc @ [c]) cs of
              Some r \<Rightarrow> Some r
            | None \<Rightarrow> k acc (c # cs)))"

definition match_here :: "string \<Rightarrow> string list option" where
  \<comment> \<open>a match starting at the first byte: the whole match, group 1, group 2\<close>
  "match_here s =
     (case strip_prefix ''<'' s of
        None \<Rightarrow> None
      | Some s1 \<Rightarrow>
          dotstar (\<lambda>g1 s2.
            case strip_prefix (''>; rel='' @ [dq]) s2 of
              None \<Rightarrow> None
            | Some s3 \<Rightarrow>
                dotstar (\<lambda>g2 s4.
                  case strip_prefix [dq] s4 of
                    None \<Rightarrow> None
                  | Some _ \<Rightarrow> Some [''<'' @ g1 @ ''>; rel='' @ [dq] @ g2 @ [dq], g1, g2])
                [] s3)
          [] s1)"

fun FindStringSubmatch :: "string \<Rightarrow> string list option" where
  "FindStringSubmatch [] = match_here []"
| "FindStringSubmatch (c # cs) =
     (case match_here (c # cs) of
        Some m \<Rightarrow> Some m
      | None \<Rightarrow> FindStringSubmatch cs)"

text \<open>\<^verbatim>\<open>strconv.Itoa\<close> and \<^verbatim>\<open>strconv.Atoi\<close>, for the 64-bit \<^verbatim>\<open>int\<close>.\<close>

definition digit :: "nat \<Rightarrow> char" where
  "digit d = ''0123456789'' ! d"

fun digits :: "nat \<Rightarrow> string" where
  "digits n = (if n < 10 then [digit n] else digits (n div 10) @ [digit (n mod 10)])"

declare digits.simps [simp del]

definition Itoa :: "int \<Rightarrow> string" where
  "Itoa i = (if i < 0 then CHR ''-'' # digits (nat (- i)) else digits (nat i))"

definition digit_val :: "char \<Rightarrow> int option" where
  "digit_val c =
     map_of [(CHR ''0'', 0), (CHR ''1'', 1), (CHR ''2'', 2), (CHR ''3'', 3), (CHR ''4'', 4),
             (CHR ''5'', 5), (CHR ''6'', 6), (CHR ''7'', 7), (CHR ''8'', 8), (CHR ''9'', 9)] c"

fun parse_digits :: "int \<Rightarrow> string \<Rightarrow> int option" where
  "parse_digits n [] = Some n"
| "parse_digits n (c # cs) =
     (case digit_val c of
        None \<Rightarrow> None
      | Some d \<Rightarrow> parse_digits (n * 10 + d) cs)"

definition Atoi :: "string \<Rightarrow> int \<times> error option" where
  "Atoi s =
     (let (neg, ds) =
            (case s of
               [] \<Rightarrow> (False, s)
             | c # cs \<Rightarrow>
                 if c = CHR ''-'' then (True, cs)
                 else if c = CHR ''+'' then (False, cs)
                 else (False, s))
      in if ds = [] then (0, Some (NumError ''Atoi'' s ErrSyntax))
         else (case parse_digits 0 ds of
                 None \<Rightarrow> (0, Some (NumError ''Atoi'' s ErrSyntax))
               | Some un \<Rightarrow>
                   if \<not> neg \<and> 2 ^ 63 \<le> un
                     then (2 ^ 63 - 1, Some (NumError ''Atoi'' s ErrRange))
                   else if neg \<and> 2 ^ 63 < un
                     then (- (2 ^ 63), Some (NumError ''Atoi'' s ErrRange))
                   else (if neg then - un else un, None)))"

text \<open>
  An \<^verbatim>\<open>io.Reader\<close> is what \<^verbatim>\<open>io.ReadAll\<close> gets out of it: the bytes read and the
  error that stopped the reading, if any.
\<close>

definition ReadAll :: "reader \<Rightarrow> string \<times> error option" where
  "ReadAll reader = reader"

text \<open>
  \<^verbatim>\<open>queryVals := make(url.Values); for k, v := range q { queryVals.Set(k, v) }\<close>:
  every key of the query with the one-element list of its value.
\<close>

definition values_of :: "(string \<rightharpoonup> string) \<Rightarrow> header" where
  "values_of m = (\<lambda>k. case m k of None \<Rightarrow> None | Some v \<Rightarrow> Some [v])"

subsection \<open>Response decoder and fetch\<close>

definition decodeCards :: "'c env \<Rightarrow> reader \<Rightarrow> 'c ptr slice \<times> error option" where
  "decodeCards env reader =
     (case ReadAll reader of
        (asBytes, Some err) \<Rightarrow> (None, Some err)
      | (asBytes, None) \<Rightarrow>
          (case Unmarshal env asBytes of
             Inl err \<Rightarrow> (None, Some err)
           | Inr cardResp \<Rightarrow>
               if Card cardResp \<noteq> None then (Some [Card cardResp], None)
               else (Cards cardResp, None)))"

definition fetchCards ::
  "'c env \<Rightarrow> string \<Rightarrow> world \<Rightarrow> ('c ptr slice \<times> header \<times> error option) \<times> world" where
  "fetchCards env url w =
     (let w1 = w\<lparr>requests := requests w @ [url]\<rparr>
      in case httpGet env (requests w) url of
           Inl err \<Rightarrow> ((None, Map.empty, Some err), w1)
         | Inr resp \<Rightarrow>
             (case checkError env resp of
                Some err \<Rightarrow> ((None, Map.empty, Some err), w1)
              | None \<Rightarrow>
                  (case decodeCards env (Body resp) of
                     (cards, Some err) \<Rightarrow> ((None, Map.empty, Some err), w1)
                   | (cards, None) \<Rightarrow> ((cards, Header resp, None), w1))))"

subsection \<open>Pagination engine\<close>

definition scanLinks :: "string list \<Rightarrow> string" where
  \<comment> \<open>\<^verbatim>\<open>nextURL = ""\<close>, then the loop over the parts\<close>
  "scanLinks parts =
     foldl (\<lambda>nextURL link.
              case FindStringSubmatch link of
                None \<Rightarrow> nextURL
              | Some match \<Rightarrow> if match ! 2 = ''next'' then match ! 1 else nextURL)
       [] parts"

definition nextLink :: "header \<Rightarrow> string outcome" where
  \<comment> \<open>\<^verbatim>\<open>linkH[0]\<close> panics when the header is there with no value\<close>
  "nextLink header =
     (case header ''Link'' of
        None \<Rightarrow> Returns []
      | Some linkH \<Rightarrow>
          (case linkH of
             [] \<Rightarrow> Panics
           | l0 # _ \<Rightarrow> Returns (scanLinks (Split l0 (CHR '','')))))"

text \<open>
  The loop of \<^verbatim>\<open>All\<close>, from its test \<^verbatim>\<open>nextURL != ""\<close>. It may run forever: \<open>None\<close>
  is not returning.
\<close>

partial_function (option) drain ::
  "'c env \<Rightarrow> string \<Rightarrow> 'c ptr slice \<Rightarrow> world
     \<Rightarrow> (('c ptr slice \<times> error option) outcome \<times> world) option" where
  "drain env nextURL allCards w =
     (if nextURL = [] then Some (Returns (allCards, None), w)
      else (case fetchCards env nextURL w of
              ((cards, header, Some err), w1) \<Rightarrow> Some (Returns (None, Some err), w1)
            | ((cards, header, None), w1) \<Rightarrow>
                (case nextLink header of
                   Panics \<Rightarrow> Some (Panics, w1)
                 | Returns nextURL' \<Rightarrow> drain env nextURL' (append_slice allCards cards) w1)))"

definition All_query ::
  "'c env \<Rightarrow> world \<Rightarrow> query
     \<Rightarrow> (('c ptr slice \<times> error option) outcome \<times> world) option" where
  "All_query env w q =
     (let queryVals = values_of (cells w q);
          nextURL = queryURL @ ''cards?'' @ Encode env queryVals
      in drain env nextURL None w)"

definition PageS ::
  "'c env \<Rightarrow> world \<Rightarrow> query \<Rightarrow> int \<Rightarrow> int
     \<Rightarrow> ('c ptr slice \<times> int \<times> error option) \<times> world" where
  "PageS env w q pageNum pageSize =
     (let queryVals = values_of (cells w q);
          queryVals = queryVals(''page'' \<mapsto> [Itoa pageNum]);
          queryVals = queryVals(''pageSize'' \<mapsto> [Itoa pageSize]);
          url = queryURL @ ''cards?'' @ Encode env queryVals
      in case fetchCards env url w of
           ((cards, header, Some err), w1) \<Rightarrow> ((None, 0, Some err), w1)
         | ((cards, header, None), w1) \<Rightarrow>
             (case header ''Total-Count'' of
                None \<Rightarrow> ((cards, len cards, None), w1)
              | Some totals \<Rightarrow>
                  if 0 < length totals
                  then (case Atoi (totals ! 0) of
                          (n, Some err) \<Rightarrow> ((None, 0, Some err), w1)
                        | (n, None) \<Rightarrow> ((cards, n, None), w1))
                  else ((cards, len cards, None), w1)))"

definition Page ::
  "'c env \<Rightarrow> world \<Rightarrow> query \<Rightarrow> int \<Rightarrow> ('c ptr slice \<times> int \<times> error option) \<times> world" where
  "Page env w q pageNum = PageS env w q pageNum 100"

definition Random ::
  "'c env \<Rightarrow> world \<Rightarrow> query \<Rightarrow> int \<Rightarrow> ('c ptr slice \<times> error option) \<times> world" where
  "Random env w q count =
     (let queryVals = values_of (cells w q);
          queryVals = queryVals(''random'' \<mapsto> [''true'']);
          queryVals = queryVals(''pageSize'' \<mapsto> [Itoa count]);
          url = queryURL @ ''cards?'' @ Encode env queryVals
      in case fetchCards env url w of
           ((cards, header, err), w1) \<Rightarrow> ((cards, err), w1))"

subsection \<open>Runs of the drain loop\<close>

text \<open>
  \<open>serves_pages env url w pages\<close>: from the world \<open>w\<close>, the fetch of \<open>url\<close> and of each
  URL the loop reads from a response succeed and yield these pages in turn; the loop
  reads a non-empty next URL from every response but the last, and the empty one from
  the last.
\<close>

fun serves_pages :: "'c env \<Rightarrow> string \<Rightarrow> world \<Rightarrow> 'c ptr slice list \<Rightarrow> bool" where
  "serves_pages env url w [] = False"
| "serves_pages env url w [cards] =
     (case fetchCards env url w of
        ((cs, header, err), w1) \<Rightarrow> err = None \<and> cs = cards \<and> nextLink header = Returns [])"
| "serves_pages env url w (cards # rest) =
     (case fetchCards env url w of
        ((cs, header, err), w1) \<Rightarrow>
          err = None \<and> cs = cards
          \<and> (case nextLink header of
                Panics \<Rightarrow> False
              | Returns u \<Rightarrow> u \<noteq> [] \<and> serves_pages env u w1 rest))"

text \<open>
  \<open>serves_then_fails env url w pages e\<close>: the fetches yield these pages, each with a
  non-empty next URL, and the fetch after the last of them returns the error \<open>e\<close>.
\<close>

fun serves_then_fails :: "'c env \<Rightarrow> string \<Rightarrow> world \<Rightarrow> 'c ptr slice list \<Rightarrow> error \<Rightarrow> bool" where
  "serves_then_fails env url w [] e =
     (case fetchCards env url w of ((cs, header, err), w1) \<Rightarrow> err = Some e)"
| "serves_then_fails env url w (cards # rest) e =
     (case fetchCards env url w of
        ((cs, header, err), w1) \<Rightarrow>
          err = None \<and> cs = cards
          \<and> (case nextLink header of
                Panics \<Rightarrow> False
              | Returns u \<Rightarrow> u \<noteq> [] \<and> serves_then_fails env u w1 rest e))"

text \<open>
  Following the spec's words: the URLs of the entries of a link header value that have
  \<open>rel="next"\<close>, in parse order.
\<close>

definition next_entries :: "string list \<Rightarrow> string list" where
  "next_entries parts =
     concat (map (\<lambda>link. case FindStringSubmatch link of
                             None \<Rightarrow> []
                           | Some match \<Rightarrow> if match ! 2 = ''next'' then [match ! 1] else [])
               parts)"

subsection \<open>A mock transport\<close>

text \<open>
  The transport of the examples answers the \<open>i\<close>-th request with the \<open>i\<close>-th entry of
  a script, whatever the URL, and fails when the script is used up. It encodes the
  parameters it knows of, in a fixed order. Its bodies decode
  to one record per byte; the body \<open>{}\<close> decodes to a response with neither slot set,
  as \<^verbatim>\<open>json.Unmarshal\<close> leaves a zero \<^verbatim>\<open>cardResponse\<close> on that input, and the
  body \<open>!\<close> is malformed.
\<close>

definition script_get :: "(error + response) list \<Rightarrow> string list \<Rightarrow> string \<Rightarrow> error + response" where
  "script_get script hist url =
     (if length hist < length script then script ! length hist
      else Inl (OtherError ''connection refused''))"

definition bytes_unmarshal :: "string \<Rightarrow> error + char cardResponse" where
  "bytes_unmarshal asBytes =
     (if asBytes = ''!'' then Inl (OtherError ''invalid character'')
      else if asBytes = ''{}'' then Inr \<lparr>Card = None, Cards = None\<rparr>
      else Inr \<lparr>Card = None, Cards = Some (map Some asBytes)\<rparr>)"

definition encode_keys :: "string list \<Rightarrow> header \<Rightarrow> string" where
  \<comment> \<open>the pairs of the listed keys, in the order of the list\<close>
  "encode_keys ks vals =
     concat (map (\<lambda>k. case vals k of
                         None \<Rightarrow> []
                       | Some vs \<Rightarrow> concat (map (\<lambda>v. k @ ''='' @ v @ '';'') vs)) ks)"

definition mock :: "(error + response) list \<Rightarrow> char env" where
  "mock script =
     \<lparr>httpGet = script_get script, checkError = (\<lambda>resp. None),
      Unmarshal = bytes_unmarshal,
      Encode = encode_keys [''orderBy'', ''page'', ''pageSize'', ''random'', ''set'']\<rparr>"

definition page :: "(string \<times> string list) list \<Rightarrow> string \<Rightarrow> error + response" where
  "page hdrs body = Inr \<lparr>Header = map_of hdrs, Body = (body, None)\<rparr>"

definition rel_entry :: "string \<Rightarrow> string \<Rightarrow> string" where
  \<comment> \<open>the text of one link entry\<close>
  "rel_entry u r = ''<'' @ u @ ''>; rel='' @ [dq] @ r @ [dq]"

definition world0 :: world where
  "world0 = \<lparr>cells = (\<lambda>_. Map.empty), fresh = 0, requests = []\<rparr>"

subsection \<open>Properties of the query builder\<close>

lemma mutate_other_cell: "t \<noteq> q \<Longrightarrow> cells (mutate w (t, m)) q = cells w q"
  by (cases m) (simp_all add: Where_def OrderBy_def)

lemma mutate_all_other_cell:
  "\<forall>tm \<in> set ms. fst tm \<noteq> q \<Longrightarrow> cells (mutate_all w ms) q = cells w q"
  unfolding mutate_all_def
proof (induction ms arbitrary: w)
  case Nil
  show ?case by simp
next
  case (Cons tm ms)
  obtain t m where tm: "tm = (t, m)" by (cases tm)
  from Cons.prems tm have "t \<noteq> q" by simp
  then have "cells (mutate w tm) q = cells w q"
    unfolding tm by (rule mutate_other_cell)
  moreover from Cons.prems have "\<forall>tm \<in> set ms. fst tm \<noteq> q" by simp
  ultimately show ?case using Cons.IH [of "mutate w tm"] by simp
qed

text \<open>
  C6: after \<open>Where(a, v1)\<close> and then \<open>Where(a, v2)\<close> on what the first call returned, the
  query holds one entry for \<open>a\<close>, with value \<open>v2\<close>: its table is the one a single
  \<open>Where(a, v2)\<close> leaves, and \<open>v2\<close> is the only value stored under \<open>a\<close>. Both calls
  return the receiver itself, and no other query's table changes.
\<close>

theorem Where_last_write_wins:
  "(let (q1, w1) = Where w q a v1; (q2, w2) = Where w1 q1 a v2
    in q1 = q \<and> q2 = q
       \<and> cells w2 q = (cells w q)(a \<mapsto> v2)
       \<and> {v. cells w2 q a = Some v} = {v2}
       \<and> w2 = snd (Where w q a v2))"
  by (simp add: Where_def)

theorem Where_last_write_wins_witness:
  "fst (Where (snd (Where world0 0 ''set'' ''KLD'')) 0 ''set'' ''AER'') = 0
   \<and> cells (snd (Where (snd (Where world0 0 ''set'' ''KLD'')) 0 ''set'' ''AER'')) 0
     = [''set'' \<mapsto> ''AER'']"
  using Where_last_write_wins [of world0 0 "''set''" "''KLD''" "''AER''"]
  by (simp add: Where_def world0_def)

text \<open>
  C7: \<open>Copy\<close> of a live query \<open>q\<close> returns another query \<open>r\<close> whose table holds the pairs
  of \<open>q\<close> at the call, and leaves \<open>q\<close> as it was. Whatever \<open>Where\<close> and \<open>OrderBy\<close> calls
  are then made on \<open>r\<close>, the table of \<open>q\<close> stays the same, and whatever calls are made on
  \<open>q\<close>, the table of \<open>r\<close> stays the same.
\<close>

theorem Copy_independent:
  assumes live: "q < fresh w"
    and copy: "Copy w q = (r, w')"
  shows "cells w' r = cells w q \<and> cells w' q = cells w q \<and> r \<noteq> q
       \<and> cells (mutate_all w' (map (Pair r) ms)) q = cells w q
       \<and> cells (mutate_all w' (map (Pair q) ms)) r = cells w q"
proof -
  from copy have r: "r = fresh w"
    and w': "w' = w\<lparr>cells := (cells w)(r := Map.empty ++ cells w q), fresh := Suc (fresh w)\<rparr>"
    by (auto simp add: Copy_def Let_def)
  from live r have ne: "r \<noteq> q" by simp
  have snap: "cells w' r = cells w q" by (simp add: w')
  have same: "cells w' q = cells w q" using ne by (simp add: w')
  have "\<forall>tm \<in> set (map (Pair r) ms). fst tm \<noteq> q" using ne by simp
  then have m1: "cells (mutate_all w' (map (Pair r) ms)) q = cells w' q"
    by (rule mutate_all_other_cell)
  have "\<forall>tm \<in> set (map (Pair q) ms). fst tm \<noteq> r" using ne by simp
  then have m2: "cells (mutate_all w' (map (Pair q) ms)) r = cells w' r"
    by (rule mutate_all_other_cell)
  from snap same ne m1 m2 show ?thesis by simp
qed

theorem Copy_independent_witness:
  "(let w = \<lparr>cells = (\<lambda>_. Map.empty)(0 := [''set'' \<mapsto> ''KLD'']), fresh = Suc 0, requests = []\<rparr>;
        (r, w') = Copy w 0
    in 0 < fresh w \<and> r = Suc 0 \<and> cells w' r = [''set'' \<mapsto> ''KLD''] \<and> r \<noteq> 0
       \<and> cells (mutate_all w' (map (Pair r) [MWhere ''rarity'' ''Rare'', MOrderBy ''name''])) 0
           = [''set'' \<mapsto> ''KLD'']
       \<and> cells (mutate_all w' (map (Pair 0) [MWhere ''set'' ''AER'', MOrderBy ''cmc''])) r
           = [''set'' \<mapsto> ''KLD''])"
proof -
  let ?w = "\<lparr>cells = (\<lambda>_. Map.empty)(0 := [''set'' \<mapsto> ''KLD'']), fresh = Suc 0, requests = []\<rparr>"
  have live: "0 < fresh ?w" by simp
  obtain r w' where copy: "Copy ?w 0 = (r, w')" by (cases "Copy ?w 0")
  then have r: "r = Suc 0" by (auto simp add: Copy_def Let_def)
  have cell: "cells ?w 0 = [''set'' \<mapsto> ''KLD'']" by simp
  show ?thesis
    using Copy_independent [OF live copy, of "[MWhere ''rarity'' ''Rare'', MOrderBy ''name'']"]
      Copy_independent [OF live copy, of "[MWhere ''set'' ''AER'', MOrderBy ''cmc'']"]
    unfolding Let_def copy cell r by simp
qed


subsection \<open>Properties of the response decoder\<close>

text \<open>
  C5, as the claim states it, fails: a body that decodes with neither slot set, such as
  \<open>{}\<close>, is decoded with no error to the null list.
\<close>

theorem decodeCards_null_list_counterexample:
  "decodeCards (mock []) (''{}'', None) = (None, None)"
  by (simp add: decodeCards_def ReadAll_def mock_def bytes_unmarshal_def)

text \<open>
  C5, amended: for every body that is read and unmarshalled with no error, the decoder
  returns no error and, if the single-record slot is populated, the one-element list of
  exactly that record, whatever the list slot holds; otherwise the list slot's contents
  unchanged, the empty list when the slot holds the empty list and the null list when
  the slot is null. The result is the null list only in that last case.
\<close>

theorem decodeCards_normalises:
  assumes "ReadAll reader = (asBytes, None)"
    and "Unmarshal env asBytes = Inr cardResp"
  shows "decodeCards env reader =
           (case Card cardResp of
              Some c \<Rightarrow> (Some [Some c], None)
            | None \<Rightarrow> (Cards cardResp, None))
       \<and> (fst (decodeCards env reader) = None \<longleftrightarrow> Card cardResp = None \<and> Cards cardResp = None)
       \<and> (Card cardResp = None \<and> Cards cardResp = Some []
            \<longrightarrow> decodeCards env reader = (Some [], None))"
  using assms by (auto simp add: decodeCards_def split: option.splits)

theorem decodeCards_normalises_witness:
  "ReadAll (''ab'', None) = (''ab'', None)
   \<and> Unmarshal (mock []) ''ab'' = Inr \<lparr>Card = None, Cards = Some [Some CHR ''a'', Some CHR ''b'']\<rparr>
   \<and> decodeCards (mock []) (''ab'', None) = (Some [Some CHR ''a'', Some CHR ''b''], None)
   \<and> Unmarshal (mock []) [] = Inr \<lparr>Card = None, Cards = Some []\<rparr>
   \<and> decodeCards (mock []) ([], None) = (Some [], None)
   \<and> decodeCards (mock [] \<lparr>Unmarshal := (\<lambda>b. Inr \<lparr>Card = Some CHR ''x'', Cards = Some [None]\<rparr>)\<rparr>)
        (''ab'', None) = (Some [Some CHR ''x''], None)"
proof -
  have r: "ReadAll (''ab'', None) = (''ab'', None)" "ReadAll ([], None) = ([], None)"
    by (simp_all add: ReadAll_def)
  have u1: "Unmarshal (mock []) ''ab''
      = Inr \<lparr>Card = None, Cards = Some [Some CHR ''a'', Some CHR ''b'']\<rparr>"
    by (simp add: mock_def bytes_unmarshal_def)
  have u2: "Unmarshal (mock []) [] = Inr \<lparr>Card = None, Cards = Some []\<rparr>"
    by (simp add: mock_def bytes_unmarshal_def)
  have u3: "Unmarshal (mock [] \<lparr>Unmarshal := (\<lambda>b. Inr \<lparr>Card = Some CHR ''x'', Cards = Some [None]\<rparr>)\<rparr>) ''ab''
      = Inr \<lparr>Card = Some CHR ''x'', Cards = Some [None]\<rparr>"
    by simp
  show ?thesis
    using decodeCards_normalises [OF r(1) u1] decodeCards_normalises [OF r(2) u2]
      decodeCards_normalises [OF r(1) u3] r u1 u2
    by simp
qed


subsection \<open>Properties of a single page fetch\<close>

lemma fetchCards_requests: "requests (snd (fetchCards env url w)) = requests w @ [url]"
  by (simp add: fetchCards_def Let_def split: sum.splits option.splits prod.splits)

lemma fetchCards_cells: "cells (snd (fetchCards env url w)) = cells w"
  by (simp add: fetchCards_def Let_def split: sum.splits option.splits prod.splits)

lemma fetchCards_fresh: "fresh (snd (fetchCards env url w)) = fresh w"
  by (simp add: fetchCards_def Let_def split: sum.splits option.splits prod.splits)

lemma fetchCards_error_no_cards:
  "fetchCards env url w = ((cards, header, Some err), w1) \<Longrightarrow> cards = None"
  by (auto simp add: fetchCards_def Let_def split: sum.splits option.splits prod.splits)

text \<open>
  C3: \<open>PageS(pageNum, pageSize)\<close> makes one request, for the URL built from the
  query's pairs with \<open>page\<close> set to the decimal text of \<open>pageNum\<close> and \<open>pageSize\<close> to
  that of \<open>pageSize\<close>. When that fetch succeeds, it returns the decoded records and no
  error, with the count that \<open>Atoi\<close> reads from the first value of the
  \<open>Total-Count\<close> header when the header is there and parses, and with the number of
  records of the page when the header is absent.
\<close>

theorem PageS_request_and_count:
  "(let vals = (values_of (cells w q))(''page'' \<mapsto> [Itoa pageNum], ''pageSize'' \<mapsto> [Itoa pageSize]);
        url = queryURL @ ''cards?'' @ Encode env vals
    in vals ''page'' = Some [Itoa pageNum] \<and> vals ''pageSize'' = Some [Itoa pageSize]
       \<and> (\<forall>k. k \<noteq> ''page'' \<and> k \<noteq> ''pageSize'' \<longrightarrow> vals k = map_option (\<lambda>v. [v]) (cells w q k))
       \<and> requests (snd (PageS env w q pageNum pageSize)) = requests w @ [url]
       \<and> (\<forall>cards header w1. fetchCards env url w = ((cards, header, None), w1) \<longrightarrow>
            (\<forall>t ts n. header ''Total-Count'' = Some (t # ts) \<and> Atoi t = (n, None) \<longrightarrow>
               PageS env w q pageNum pageSize = ((cards, n, None), w1))
            \<and> (header ''Total-Count'' = None \<longrightarrow>
               PageS env w q pageNum pageSize = ((cards, len cards, None), w1))))"
proof -
  define vals where
    "vals = (values_of (cells w q))(''page'' \<mapsto> [Itoa pageNum], ''pageSize'' \<mapsto> [Itoa pageSize])"
  define url where "url = queryURL @ ''cards?'' @ Encode env vals"
  have P: "PageS env w q pageNum pageSize =
      (case fetchCards env url w of
         ((cards, header, Some err), w1) \<Rightarrow> ((None, 0, Some err), w1)
       | ((cards, header, None), w1) \<Rightarrow>
           (case header ''Total-Count'' of
              None \<Rightarrow> ((cards, len cards, None), w1)
            | Some totals \<Rightarrow>
                if 0 < length totals
                then (case Atoi (totals ! 0) of
                        (n, Some err) \<Rightarrow> ((None, 0, Some err), w1)
                      | (n, None) \<Rightarrow> ((cards, n, None), w1))
                else ((cards, len cards, None), w1)))"
    by (simp add: PageS_def Let_def url_def vals_def)
  have v1: "vals ''page'' = Some [Itoa pageNum]" by (simp add: vals_def)
  have v2: "vals ''pageSize'' = Some [Itoa pageSize]" by (simp add: vals_def)
  have v3: "\<forall>k. k \<noteq> ''page'' \<and> k \<noteq> ''pageSize'' \<longrightarrow> vals k = map_option (\<lambda>v. [v]) (cells w q k)"
    by (simp add: vals_def values_of_def split: option.splits)
  have "snd (PageS env w q pageNum pageSize) = snd (fetchCards env url w)"
    by (auto simp add: P split: prod.splits option.splits)
  then have req: "requests (snd (PageS env w q pageNum pageSize)) = requests w @ [url]"
    by (simp add: fetchCards_requests)
  have ok: "\<forall>cards header w1. fetchCards env url w = ((cards, header, None), w1) \<longrightarrow>
            (\<forall>t ts n. header ''Total-Count'' = Some (t # ts) \<and> Atoi t = (n, None) \<longrightarrow>
               PageS env w q pageNum pageSize = ((cards, n, None), w1))
            \<and> (header ''Total-Count'' = None \<longrightarrow>
               PageS env w q pageNum pageSize = ((cards, len cards, None), w1))"
    by (simp add: P)
  from v1 v2 v3 req ok show ?thesis
    unfolding Let_def vals_def [symmetric] url_def [symmetric] by blast
qed


theorem PageS_request_and_count_witness:
  "PageS (mock [page [(''Total-Count'', [''250'', ''x''])] ''ab''])
       (world0\<lparr>cells := (\<lambda>_. [''set'' \<mapsto> ''KLD''])\<rparr>) 0 2 50
     = ((Some [Some CHR ''a'', Some CHR ''b''], 250, None),
        world0\<lparr>cells := (\<lambda>_. [''set'' \<mapsto> ''KLD'']),
               requests := [queryURL @ ''cards?page=2;pageSize=50;set=KLD;'']\<rparr>)
   \<and> PageS (mock [page [] ''ab'']) world0 0 2 50
     = ((Some [Some CHR ''a'', Some CHR ''b''], 2, None),
        world0\<lparr>requests := [queryURL @ ''cards?page=2;pageSize=50;'']\<rparr>)"
proof -
  let ?w = "world0\<lparr>cells := (\<lambda>_. [''set'' \<mapsto> ''KLD''])\<rparr>"
  let ?e1 = "mock [page [(''Total-Count'', [''250'', ''x''])] ''ab'']"
  let ?e2 = "mock [page [] ''ab'']"
  have i: "Itoa 2 = ''2''" "Itoa 50 = ''50''"
    by (simp_all add: Itoa_def digits.simps digit_def)
  have a: "Atoi ''250'' = (250, None)"
    by (simp add: Atoi_def digit_val_def)
  have u1: "Encode ?e1 ((values_of (cells ?w 0))(''page'' \<mapsto> [''2''], ''pageSize'' \<mapsto> [''50'']))
      = ''page=2;pageSize=50;set=KLD;''"
    by (simp add: mock_def encode_keys_def values_of_def world0_def)
  have u2: "Encode ?e2 ((values_of (cells world0 0))(''page'' \<mapsto> [''2''], ''pageSize'' \<mapsto> [''50'']))
      = ''page=2;pageSize=50;''"
    by (simp add: mock_def encode_keys_def values_of_def world0_def)
  have f1: "fetchCards ?e1 (queryURL @ ''cards?page=2;pageSize=50;set=KLD;'') ?w
      = ((Some [Some CHR ''a'', Some CHR ''b''],
          map_of [(''Total-Count'', [''250'', ''x''])], None),
         ?w\<lparr>requests := [queryURL @ ''cards?page=2;pageSize=50;set=KLD;'']\<rparr>)"
    by (simp add: fetchCards_def decodeCards_def ReadAll_def mock_def script_get_def page_def
        bytes_unmarshal_def world0_def)
  have f2: "fetchCards ?e2 (queryURL @ ''cards?page=2;pageSize=50;'') world0
      = ((Some [Some CHR ''a'', Some CHR ''b''], map_of [], None),
         world0\<lparr>requests := [queryURL @ ''cards?page=2;pageSize=50;'']\<rparr>)"
    by (simp add: fetchCards_def decodeCards_def ReadAll_def mock_def script_get_def page_def
        bytes_unmarshal_def world0_def)
  have l: "len (Some [Some CHR ''a'', Some CHR ''b'']) = 2"
    by (simp add: len_def elems_def)
  show ?thesis
    using PageS_request_and_count [of ?w 0 2 50 ?e1] PageS_request_and_count [of world0 0 2 50 ?e2]
    unfolding Let_def i u1 u2
    by (simp add: f1 f2 a l)
qed

text \<open>
  C4: when the fetch of \<open>PageS\<close> succeeds and the first value of the \<open>Total-Count\<close>
  header does not parse as an integer, \<open>PageS\<close> returns the parse error, the null
  list and the count 0, although the page was fetched and decoded.
\<close>

theorem PageS_bad_total_count:
  assumes "fetchCards env
             (queryURL @ ''cards?'' @ Encode env
                ((values_of (cells w q))(''page'' \<mapsto> [Itoa pageNum], ''pageSize'' \<mapsto> [Itoa pageSize])))
             w = ((cards, header, None), w1)"
    and "header ''Total-Count'' = Some (t # ts)"
    and "Atoi t = (n, Some err)"
  shows "PageS env w q pageNum pageSize = ((None, 0, Some err), w1)"
  using assms by (simp add: PageS_def Let_def)

theorem PageS_bad_total_count_witness:
  "Atoi ''many'' = (0, Some (NumError ''Atoi'' ''many'' ErrSyntax))
   \<and> PageS (mock [page [(''Total-Count'', [''many''])] ''ab'']) world0 0 2 50
     = ((None, 0, Some (NumError ''Atoi'' ''many'' ErrSyntax)),
        world0\<lparr>requests := [queryURL @ ''cards?page=2;pageSize=50;'']\<rparr>)"
proof -
  let ?e = "mock [page [(''Total-Count'', [''many''])] ''ab'']"
  have i: "Itoa 2 = ''2''" "Itoa 50 = ''50''"
    by (simp_all add: Itoa_def digits.simps digit_def)
  have a: "Atoi ''many'' = (0, Some (NumError ''Atoi'' ''many'' ErrSyntax))"
    by (simp add: Atoi_def digit_val_def)
  have u: "Encode ?e ((values_of (cells world0 0))(''page'' \<mapsto> [''2''], ''pageSize'' \<mapsto> [''50'']))
      = ''page=2;pageSize=50;''"
    by (simp add: mock_def encode_keys_def values_of_def world0_def)
  have f: "fetchCards ?e
             (queryURL @ ''cards?'' @ Encode ?e
                ((values_of (cells world0 0))(''page'' \<mapsto> [Itoa 2], ''pageSize'' \<mapsto> [Itoa 50])))
             world0
      = ((Some [Some CHR ''a'', Some CHR ''b''], map_of [(''Total-Count'', [''many''])], None),
         world0\<lparr>requests := [queryURL @ ''cards?page=2;pageSize=50;'']\<rparr>)"
    unfolding i u
    by (simp add: fetchCards_def decodeCards_def ReadAll_def mock_def script_get_def page_def
        bytes_unmarshal_def world0_def)
  have h: "map_of [(''Total-Count'', [''many''])] ''Total-Count'' = Some (''many'' # [])"
    by simp
  show ?thesis
    using PageS_bad_total_count [OF f h a] a by simp
qed


subsection \<open>Properties of the drain loop\<close>

lemma elems_append_slice: "elems (append_slice s t) = elems s @ elems t"
  by (simp add: append_slice_def elems_def split: option.splits)

lemma elems_foldl_append_slice:
  "elems (foldl append_slice acc pages) = elems acc @ concat (map elems pages)"
  by (induction pages arbitrary: acc) (simp_all add: elems_append_slice)

lemma queryURL_not_empty: "queryURL @ rest \<noteq> []"
  by (simp add: queryURL_def)

lemma drain_stop: "drain env [] allCards w = Some (Returns (allCards, None), w)"
  by (subst drain.simps) simp

lemma drain_error:
  "url \<noteq> [] \<Longrightarrow> fetchCards env url w = ((cards, header, Some err), w1)
   \<Longrightarrow> drain env url allCards w = Some (Returns (None, Some err), w1)"
  by (subst drain.simps) simp

lemma drain_panic:
  "url \<noteq> [] \<Longrightarrow> fetchCards env url w = ((cards, header, None), w1)
   \<Longrightarrow> nextLink header = Panics
   \<Longrightarrow> drain env url allCards w = Some (Panics, w1)"
  by (subst drain.simps) simp

lemma drain_step:
  "url \<noteq> [] \<Longrightarrow> fetchCards env url w = ((cards, header, None), w1)
   \<Longrightarrow> nextLink header = Returns u
   \<Longrightarrow> drain env url allCards w = drain env u (append_slice allCards cards) w1"
  by (subst drain.simps) simp

lemma fetchCards_world:
  "fetchCards env url w = (r, w1) \<Longrightarrow> w1 = w\<lparr>requests := requests w @ [url]\<rparr>"
  by (auto simp add: fetchCards_def Let_def split: sum.splits option.splits prod.splits)

lemma drain_serves_pages:
  "serves_pages env url w pages \<Longrightarrow> url \<noteq> []
   \<Longrightarrow> \<exists>w'. drain env url acc w = Some (Returns (foldl append_slice acc pages, None), w')
          \<and> length (requests w') = length (requests w) + length pages
          \<and> cells w' = cells w"
proof (induction env url w pages arbitrary: acc rule: serves_pages.induct)
  case (1 env url w)
  then show ?case by simp
next
  case (2 env url w cards)
  obtain cs header err w1 where f: "fetchCards env url w = ((cs, header, err), w1)"
    by (metis prod.exhaust)
  with 2 have ok: "err = None" "cs = cards" "nextLink header = Returns []" by simp_all
  from fetchCards_world [OF f] have w1: "w1 = w\<lparr>requests := requests w @ [url]\<rparr>" .
  have "drain env url acc w = Some (Returns (append_slice acc cards, None), w1)"
    using drain_step [OF \<open>url \<noteq> []\<close> f [unfolded ok(1) ok(2)] ok(3)] by (simp add: drain_stop)
  then show ?case by (simp add: w1)
next
  case (3 env url w cards p rest)
  obtain cs header err w1 where f: "fetchCards env url w = ((cs, header, err), w1)"
    by (metis prod.exhaust)
  with "3.prems" obtain u where ok: "err = None" "cs = cards" "nextLink header = Returns u"
    "u \<noteq> []" "serves_pages env u w1 (p # rest)"
    by (auto split: outcome.splits)
  from fetchCards_world [OF f] have w1: "w1 = w\<lparr>requests := requests w @ [url]\<rparr>" .
  have step: "drain env url acc w = drain env u (append_slice acc cards) w1"
    using drain_step [OF \<open>url \<noteq> []\<close> f [unfolded ok(1) ok(2)] ok(3)] .
  from "3.IH" [OF f [symmetric] refl refl ok(3) ok(5) ok(4), of "append_slice acc cards"]
  obtain w' where "drain env u (append_slice acc cards) w1
        = Some (Returns (foldl append_slice (append_slice acc cards) (p # rest), None), w')"
    and "length (requests w') = length (requests w1) + length (p # rest)"
    and "cells w' = cells w1"
    by blast
  then show ?case by (simp add: step w1)
qed


lemma drain_serves_then_fails:
  "serves_then_fails env url w pages e \<Longrightarrow> url \<noteq> []
   \<Longrightarrow> \<exists>w'. drain env url acc w = Some (Returns (None, Some e), w')
          \<and> length (requests w') = length (requests w) + length pages + 1
          \<and> cells w' = cells w"
proof (induction env url w pages e arbitrary: acc rule: serves_then_fails.induct)
  case (1 env url w e)
  obtain cs header err w1 where f: "fetchCards env url w = ((cs, header, err), w1)"
    by (metis prod.exhaust)
  with 1 have err: "err = Some e" by simp
  from fetchCards_world [OF f] have w1: "w1 = w\<lparr>requests := requests w @ [url]\<rparr>" .
  have "drain env url acc w = Some (Returns (None, Some e), w1)"
    using drain_error [OF \<open>url \<noteq> []\<close> f [unfolded err]] .
  then show ?case by (simp add: w1)
next
  case (2 env url w cards rest e)
  obtain cs header err w1 where f: "fetchCards env url w = ((cs, header, err), w1)"
    by (metis prod.exhaust)
  with "2.prems" obtain u where ok: "err = None" "cs = cards" "nextLink header = Returns u"
    "u \<noteq> []" "serves_then_fails env u w1 rest e"
    by (auto split: outcome.splits)
  from fetchCards_world [OF f] have w1: "w1 = w\<lparr>requests := requests w @ [url]\<rparr>" .
  have step: "drain env url acc w = drain env u (append_slice acc cards) w1"
    using drain_step [OF \<open>url \<noteq> []\<close> f [unfolded ok(1) ok(2)] ok(3)] .
  from "2.IH" [OF f [symmetric] refl refl ok(3) ok(5) ok(4), of "append_slice acc cards"]
  obtain w' where "drain env u (append_slice acc cards) w1 = Some (Returns (None, Some e), w')"
    and "length (requests w') = length (requests w1) + length rest + 1"
    and "cells w' = cells w1"
    by blast
  then show ?case by (simp add: step w1)
qed

text \<open>
  The loop has no other way out: against a transport whose every response yields a
  non-empty next URL, it never returns.
\<close>

lemma drain_returns_only_on_empty_next:
  assumes "drain env url acc w = Some y"
  shows "(\<forall>url w. url \<noteq> [] \<longrightarrow>
            (\<exists>cards header w1 u. fetchCards env url w = ((cards, header, None), w1)
               \<and> nextLink header = Returns u \<and> u \<noteq> []))
         \<longrightarrow> url = []"
proof (rule drain.raw_induct
    [where P = "\<lambda>env url acc w y.
        (\<forall>url w. url \<noteq> [] \<longrightarrow>
            (\<exists>cards header w1 u. fetchCards env url w = ((cards, header, None), w1)
               \<and> nextLink header = Returns u \<and> u \<noteq> []))
         \<longrightarrow> url = []",
     OF _ assms], goal_cases)
  case (1 drain' env url acc w y)
  show ?case
  proof (intro impI)
    assume E: "\<forall>url w. url \<noteq> [] \<longrightarrow>
            (\<exists>cards header w1 u. fetchCards env url w = ((cards, header, None), w1)
               \<and> nextLink header = Returns u \<and> u \<noteq> [])"
    show "url = []"
    proof (rule ccontr)
      assume ne: "url \<noteq> []"
      with E obtain cards header w1 u
        where f: "fetchCards env url w = ((cards, header, None), w1)"
          and n: "nextLink header = Returns u" and u: "u \<noteq> []"
        by blast
      from 1(2) ne f n have "drain' env u (append_slice acc cards) w1 = Some y"
        by simp
      from 1(1) [OF this] E have "u = []" by blast
      with u show False by simp
    qed
  qed
qed

lemma drain_endless:
  assumes "\<forall>url w. url \<noteq> [] \<longrightarrow>
            (\<exists>cards header w1 u. fetchCards env url w = ((cards, header, None), w1)
               \<and> nextLink header = Returns u \<and> u \<noteq> [])"
    and "url \<noteq> []"
  shows "drain env url acc w = None"
proof (cases "drain env url acc w")
  case None
  then show ?thesis .
next
  case (Some y)
  from drain_returns_only_on_empty_next [OF Some] assms show ?thesis by blast
qed

lemma drain_frame:
  assumes "drain env url acc w = Some y"
  shows "cells (snd y) = cells w \<and> fresh (snd y) = fresh w"
proof (rule drain.raw_induct
    [where P = "\<lambda>env url acc w y. cells (snd y) = cells w \<and> fresh (snd y) = fresh w",
     OF _ assms], goal_cases)
  case (1 drain' env url acc w y)
  show ?case
  proof (cases "url = []")
    case True
    with 1(2) show ?thesis by auto
  next
    case False
    obtain cards header err w1 where f: "fetchCards env url w = ((cards, header, err), w1)"
      by (metis prod.exhaust)
    from fetchCards_world [OF f] have w1: "cells w1 = cells w" "fresh w1 = fresh w" by simp_all
    show ?thesis
    proof (cases err)
      case (Some e)
      with 1(2) False f w1 show ?thesis by auto
    next
      case None
      show ?thesis
      proof (cases "nextLink header")
        case Panics
        with 1(2) False f None w1 show ?thesis by auto
      next
        case (Returns u)
        with 1(2) False f None
        have "drain' env u (append_slice acc cards) w1 = Some y" by simp
        from 1(1) [OF this] w1 show ?thesis by simp
      qed
    qed
  qed
qed


lemmas mock_simps =
  fetchCards_def decodeCards_def ReadAll_def mock_def script_get_def page_def
  bytes_unmarshal_def world0_def encode_keys_def values_of_def

lemmas link_simps =
  nextLink_def scanLinks_def match_here_def rel_entry_def dq_def nl_def

text \<open>
  C1, as the claim states it, fails: a first page whose \<open>Link\<close> header holds the entry
  \<open><>; rel="next"\<close>, which the pattern matches with relation \<open>next\<close> and an empty URL,
  ends the drain after one fetch, with the records of that page only, though a second
  page is there to be served.
\<close>

theorem All_empty_next_url_counterexample:
  "FindStringSubmatch (rel_entry [] ''next'') = Some [rel_entry [] ''next'', [], ''next'']
   \<and> All_query (mock [page [(''Link'', [rel_entry [] ''next''])] ''a'', page [] ''b'']) world0 0
     = Some (Returns (Some [Some CHR ''a''], None), world0\<lparr>requests := [queryURL @ ''cards?'']\<rparr>)"
proof -
  let ?e = "mock [page [(''Link'', [rel_entry [] ''next''])] ''a'', page [] ''b'']"
  have m: "FindStringSubmatch (rel_entry [] ''next'') = Some [rel_entry [] ''next'', [], ''next'']"
    by (simp add: link_simps)
  have u: "queryURL @ ''cards?'' @ Encode ?e (values_of (cells world0 0)) = queryURL @ ''cards?''"
    by (simp add: mock_simps)
  have ne: "queryURL @ ''cards?'' \<noteq> []"
    by (rule queryURL_not_empty)
  have f: "fetchCards ?e (queryURL @ ''cards?'') world0
      = ((Some [Some CHR ''a''], map_of [(''Link'', [rel_entry [] ''next''])], None),
         world0\<lparr>requests := [queryURL @ ''cards?'']\<rparr>)"
    by (simp add: mock_simps)
  have n: "nextLink (map_of [(''Link'', [rel_entry [] ''next''])]) = Returns []"
    by (simp add: link_simps)
  have a: "append_slice None (Some [Some CHR ''a'']) = Some [Some CHR ''a'']"
    by (simp add: append_slice_def elems_def)
  have "All_query ?e world0 0 = drain ?e (queryURL @ ''cards?'') None world0"
    unfolding All_query_def Let_def u ..
  also have "\<dots> = drain ?e [] (append_slice None (Some [Some CHR ''a'']))
      (world0\<lparr>requests := [queryURL @ ''cards?'']\<rparr>)"
    by (rule drain_step [OF ne f n])
  finally show ?thesis using m by (simp add: drain_stop a)
qed

text \<open>
  C1, amended: for every run in which the fetches succeed and, for \<open>N\<close> successive pages,
  the loop reads a non-empty next URL from the response (the URL of a \<open>rel="next"\<close>
  entry that the pattern finds in the first value of the \<open>Link\<close> header), and reads none
  from the last page, \<open>All()\<close> returns, with no error, the records of the \<open>N + 1\<close> pages
  appended in page order, after exactly \<open>N + 1\<close> fetches. The pages may hold any number
  of records, none included: the loop stops when and only when the next URL it read is
  empty (see \<open>drain_endless\<close>).
\<close>

theorem All_drains_linked_pages:
  assumes "serves_pages env (queryURL @ ''cards?'' @ Encode env (values_of (cells w q))) w pages"
  shows "\<exists>w'. All_query env w q = Some (Returns (foldl append_slice None pages, None), w')
           \<and> elems (foldl append_slice None pages) = concat (map elems pages)
           \<and> length (requests w') = length (requests w) + length pages"
proof -
  from drain_serves_pages [OF assms queryURL_not_empty, of None]
  obtain w' where "drain env (queryURL @ ''cards?'' @ Encode env (values_of (cells w q))) None w
        = Some (Returns (foldl append_slice None pages, None), w')"
    and "length (requests w') = length (requests w) + length pages"
    by blast
  moreover have "elems (None :: 'a ptr slice) = []"
    by (simp add: elems_def)
  then have "elems (foldl append_slice None pages) = concat (map elems pages)"
    by (simp add: elems_foldl_append_slice)
  ultimately show ?thesis
    by (simp add: All_query_def Let_def)
qed

theorem All_drains_linked_pages_witness:
  "serves_pages
     (mock [page [(''Link'', [rel_entry ''u2'' ''next'' @ '', '' @ rel_entry ''u9'' ''last''])] ''ab'',
            page [(''Link'', [rel_entry ''u3'' ''next''])] [],
            page [] ''c''])
     (queryURL @ ''cards?'') world0 [Some [Some CHR ''a'', Some CHR ''b''], Some [], Some [Some CHR ''c'']]
   \<and> (\<exists>w'. All_query
         (mock [page [(''Link'', [rel_entry ''u2'' ''next'' @ '', '' @ rel_entry ''u9'' ''last''])] ''ab'',
                page [(''Link'', [rel_entry ''u3'' ''next''])] [],
                page [] ''c''])
         world0 0
        = Some (Returns (Some [Some CHR ''a'', Some CHR ''b'', Some CHR ''c''], None), w')
       \<and> length (requests w') = 3)"
proof -
  let ?e = "mock [page [(''Link'', [rel_entry ''u2'' ''next'' @ '', '' @ rel_entry ''u9'' ''last''])] ''ab'',
                page [(''Link'', [rel_entry ''u3'' ''next''])] [],
                page [] ''c'']"
  have u: "queryURL @ ''cards?'' @ Encode ?e (values_of (cells world0 0)) = queryURL @ ''cards?''"
    by (simp add: mock_simps)
  have sp: "serves_pages ?e (queryURL @ ''cards?'') world0
      [Some [Some CHR ''a'', Some CHR ''b''], Some [], Some [Some CHR ''c'']]"
    by (simp add: mock_simps link_simps)
  have fl: "foldl append_slice None [Some [Some CHR ''a'', Some CHR ''b''], Some [], Some [Some CHR ''c'']]
      = Some [Some CHR ''a'', Some CHR ''b'', Some CHR ''c'']"
    by (simp add: append_slice_def elems_def)
  have r0: "requests world0 = []"
    by (simp add: world0_def)
  have "\<exists>w'. All_query ?e world0 0
          = Some (Returns (Some [Some CHR ''a'', Some CHR ''b'', Some CHR ''c''], None), w')
        \<and> length (requests w') = 3"
    using All_drains_linked_pages [of ?e world0 0, unfolded u, OF sp]
    unfolding fl r0 by (auto simp add: numeral_3_eq_3)
  with sp show ?thesis by (rule conjI)
qed


lemma drain_error_no_records:
  assumes "drain env url acc w = Some y"
  shows "\<forall>cards e w'. y = (Returns (cards, Some e), w') \<longrightarrow> cards = None"
proof (rule drain.raw_induct
    [where P = "\<lambda>env url acc w y. \<forall>cards e w'. y = (Returns (cards, Some e), w') \<longrightarrow> cards = None",
     OF _ assms], goal_cases)
  case (1 drain' env url acc w y)
  show ?case
  proof (cases "url = []")
    case True
    with 1(2) show ?thesis by auto
  next
    case False
    obtain cards header err w1 where f: "fetchCards env url w = ((cards, header, err), w1)"
      by (metis prod.exhaust)
    show ?thesis
    proof (cases err)
      case (Some e)
      with 1(2) False f show ?thesis by auto
    next
      case None
      show ?thesis
      proof (cases "nextLink header")
        case Panics
        with 1(2) False f None show ?thesis by auto
      next
        case (Returns u)
        with 1(2) False f None
        have "drain' env u (append_slice acc cards) w1 = Some y" by simp
        from 1(1) [OF this] show ?thesis .
      qed
    qed
  qed
qed

lemma All_error_has_no_records:
  "All_query env w q = Some (Returns (cards, Some e), w') \<Longrightarrow> cards = None"
  using drain_error_no_records [of env _ None w "(Returns (cards, Some e), w')"]
  by (simp add: All_query_def Let_def)

text \<open>
  C2: in every run of \<open>All()\<close> in which a fetch returns an error, be it the first fetch
  or one that follows any number of pages fetched with success, \<open>All()\<close> returns that
  error with the null list: the records of the earlier pages are not returned. (Nor does
  any other run return records beside an error: \<open>All_error_has_no_records\<close>.)
\<close>

theorem All_fetch_error_discards_pages:
  assumes "serves_then_fails env (queryURL @ ''cards?'' @ Encode env (values_of (cells w q))) w pages e"
  shows "\<exists>w'. All_query env w q = Some (Returns (None, Some e), w')
           \<and> length (requests w') = length (requests w) + length pages + 1"
proof -
  from drain_serves_then_fails [OF assms queryURL_not_empty, of None]
  show ?thesis
    by (auto simp add: All_query_def Let_def)
qed

theorem All_fetch_error_discards_pages_witness:
  "serves_then_fails
     (mock [page [(''Link'', [rel_entry ''u2'' ''next''])] ''ab'', Inl (OtherError ''timeout'')])
     (queryURL @ ''cards?'') world0 [Some [Some CHR ''a'', Some CHR ''b'']] (OtherError ''timeout'')
   \<and> (\<exists>w'. All_query
         (mock [page [(''Link'', [rel_entry ''u2'' ''next''])] ''ab'', Inl (OtherError ''timeout'')])
         world0 0
        = Some (Returns (None, Some (OtherError ''timeout'')), w')
       \<and> length (requests w') = 2)"
proof -
  let ?e = "mock [page [(''Link'', [rel_entry ''u2'' ''next''])] ''ab'', Inl (OtherError ''timeout'')]"
  have u: "queryURL @ ''cards?'' @ Encode ?e (values_of (cells world0 0)) = queryURL @ ''cards?''"
    by (simp add: mock_simps)
  have sf: "serves_then_fails ?e (queryURL @ ''cards?'') world0
      [Some [Some CHR ''a'', Some CHR ''b'']] (OtherError ''timeout'')"
    by (simp add: mock_simps link_simps)
  have r0: "requests world0 = []"
    by (simp add: world0_def)
  have "\<exists>w'. All_query ?e world0 0 = Some (Returns (None, Some (OtherError ''timeout'')), w')
        \<and> length (requests w') = 2"
    using All_fetch_error_discards_pages [of ?e world0 0, unfolded u, OF sf]
    unfolding r0 by (auto simp add: numeral_2_eq_2)
  with sf show ?thesis by (rule conjI)
qed

subsection \<open>The persisted query under the terminal operations\<close>

lemma PageS_world:
  "snd (PageS env w q pageNum pageSize)
   = snd (fetchCards env
       (queryURL @ ''cards?'' @ Encode env
          ((values_of (cells w q))(''page'' \<mapsto> [Itoa pageNum], ''pageSize'' \<mapsto> [Itoa pageSize])))
       w)"
  by (auto simp add: PageS_def Let_def split: prod.splits option.splits)

lemma Random_world:
  "snd (Random env w q count)
   = snd (fetchCards env
       (queryURL @ ''cards?'' @ Encode env
          ((values_of (cells w q))(''random'' \<mapsto> [''true''], ''pageSize'' \<mapsto> [Itoa count])))
       w)"
  by (auto simp add: Random_def Let_def split: prod.splits)

text \<open>
  C8: \<open>PageS\<close>, \<open>Page\<close> and \<open>Random\<close>, and \<open>All\<close> whenever it returns, leave the table
  of every query, the receiver's included, as it was before the call: the \<open>page\<close>,
  \<open>pageSize\<close> and \<open>random\<close> keys go into the values built for the request only.
\<close>

theorem terminal_operations_keep_query:
  "cells (snd (PageS env w q pageNum pageSize)) = cells w
   \<and> cells (snd (Page env w q pageNum)) = cells w
   \<and> cells (snd (Random env w q count)) = cells w
   \<and> (\<forall>y. All_query env w q = Some y \<longrightarrow> cells (snd y) = cells w)"
proof -
  have a: "cells (snd (PageS env w q pageNum pageSize)) = cells w"
    by (simp only: PageS_world fetchCards_cells)
  have b: "cells (snd (Page env w q pageNum)) = cells w"
    by (simp only: Page_def PageS_world fetchCards_cells)
  have c: "cells (snd (Random env w q count)) = cells w"
    by (simp only: Random_world fetchCards_cells)
  have d: "\<forall>y. All_query env w q = Some y \<longrightarrow> cells (snd y) = cells w"
    by (auto simp add: All_query_def Let_def dest: drain_frame)
  from a b c d show ?thesis by blast
qed


theorem terminal_operations_keep_query_witness:
  "All_query (mock [page [] ''a'']) (world0\<lparr>cells := (\<lambda>_. [''set'' \<mapsto> ''KLD''])\<rparr>) 0
     = Some (Returns (Some [Some CHR ''a''], None),
             world0\<lparr>cells := (\<lambda>_. [''set'' \<mapsto> ''KLD'']),
                    requests := [queryURL @ ''cards?set=KLD;'']\<rparr>)
   \<and> cells (snd (PageS (mock [page [] ''a'']) (world0\<lparr>cells := (\<lambda>_. [''set'' \<mapsto> ''KLD''])\<rparr>) 0 2 50)) 0
     = [''set'' \<mapsto> ''KLD'']
   \<and> cells (snd (Page (mock [page [] ''a'']) (world0\<lparr>cells := (\<lambda>_. [''set'' \<mapsto> ''KLD''])\<rparr>) 0 2)) 0
     = [''set'' \<mapsto> ''KLD'']
   \<and> cells (snd (Random (mock [page [] ''a'']) (world0\<lparr>cells := (\<lambda>_. [''set'' \<mapsto> ''KLD''])\<rparr>) 0 10)) 0
     = [''set'' \<mapsto> ''KLD'']"
proof -
  let ?e = "mock [page [] ''a'']"
  let ?w = "world0\<lparr>cells := (\<lambda>_. [''set'' \<mapsto> ''KLD''])\<rparr>"
  have u: "queryURL @ ''cards?'' @ Encode ?e (values_of (cells ?w 0)) = queryURL @ ''cards?set=KLD;''"
    by (simp add: mock_simps)
  have ne: "queryURL @ ''cards?set=KLD;'' \<noteq> []"
    by (rule queryURL_not_empty)
  have f: "fetchCards ?e (queryURL @ ''cards?set=KLD;'') ?w
      = ((Some [Some CHR ''a''], map_of [], None), ?w\<lparr>requests := [queryURL @ ''cards?set=KLD;'']\<rparr>)"
    by (simp add: mock_simps)
  have n: "nextLink (map_of []) = Returns []"
    by (simp add: link_simps)
  have a: "append_slice None (Some [Some CHR ''a'']) = Some [Some CHR ''a'']"
    by (simp add: append_slice_def elems_def)
  have "All_query ?e ?w 0 = drain ?e (queryURL @ ''cards?set=KLD;'') None ?w"
    unfolding All_query_def Let_def u ..
  also have "\<dots> = drain ?e [] (append_slice None (Some [Some CHR ''a'']))
      (?w\<lparr>requests := [queryURL @ ''cards?set=KLD;'']\<rparr>)"
    by (rule drain_step [OF ne f n])
  finally have A: "All_query ?e ?w 0
      = Some (Returns (Some [Some CHR ''a''], None), ?w\<lparr>requests := [queryURL @ ''cards?set=KLD;'']\<rparr>)"
    by (simp add: drain_stop a)
  have c: "cells ?w 0 = [''set'' \<mapsto> ''KLD'']"
    by simp
  show ?thesis
    using terminal_operations_keep_query [of ?e ?w 0 2 50 10] A
    unfolding c by simp
qed

subsection \<open>Reading the next URL\<close>

lemma scan_from:
  "foldl (\<lambda>nextURL link.
            case FindStringSubmatch link of
              None \<Rightarrow> nextURL
            | Some match \<Rightarrow> if match ! 2 = ''next'' then match ! 1 else nextURL)
     init parts
   = (if next_entries parts = [] then init else last (next_entries parts))"
  by (induction parts arbitrary: init) (auto simp add: next_entries_def split: option.splits)

lemma scanLinks_last:
  "scanLinks parts = (if next_entries parts = [] then [] else last (next_entries parts))"
  unfolding scanLinks_def by (rule scan_from)

lemma nextLink_first_value:
  "header ''Link'' = Some (l0 # ls) \<Longrightarrow> nextLink header = Returns (scanLinks (Split l0 (CHR '','')))"
  by (simp add: nextLink_def)

text \<open>
  The pattern on a well-formed entry: in \<open><u>; rel="next"\<close>, after anything that has no
  \<open><\<close>, it finds the URL \<open>u\<close> and the relation \<open>next\<close>, for every \<open>u\<close> on one line. So
  a \<open>Link\<close> header whose first value is that entry, with no comma in \<open>u\<close>, yields \<open>u\<close>
  as the next URL.
\<close>

lemma FindStringSubmatch_skip:
  "CHR ''<'' \<notin> set pre \<Longrightarrow> FindStringSubmatch (pre @ s) = FindStringSubmatch s"
proof (induction pre)
  case Nil
  show ?case by simp
next
  case (Cons c pre)
  then have "match_here (c # pre @ s) = None"
    by (auto simp add: match_here_def)
  with Cons show ?case by simp
qed

lemma dotstar_skip:
  "nl \<notin> set u \<Longrightarrow> dotstar k (acc @ u) t = Some r \<Longrightarrow> dotstar k acc (u @ t) = Some r"
  by (induction u arbitrary: acc) auto

lemma match_here_next:
  assumes "nl \<notin> set u"
  shows "match_here (rel_entry u ''next'') = Some [rel_entry u ''next'', u, ''next'']"
proof -
  let ?k = "\<lambda>g1 s2.
            case strip_prefix (''>; rel='' @ [dq]) s2 of
              None \<Rightarrow> None
            | Some s3 \<Rightarrow>
                dotstar (\<lambda>g2 s4.
                  case strip_prefix [dq] s4 of
                    None \<Rightarrow> None
                  | Some _ \<Rightarrow> Some [''<'' @ g1 @ ''>; rel='' @ [dq] @ g2 @ [dq], g1, g2])
                [] s3"
  have "dotstar ?k ([] @ u) (''>; rel='' @ [dq] @ ''next'' @ [dq])
      = Some [rel_entry u ''next'', u, ''next'']"
    by (simp add: rel_entry_def dq_def nl_def)
  from dotstar_skip [OF assms this] show ?thesis
    by (simp add: match_here_def rel_entry_def)
qed

lemma FindStringSubmatch_next:
  assumes "CHR ''<'' \<notin> set pre" and "nl \<notin> set u"
  shows "FindStringSubmatch (pre @ rel_entry u ''next'') = Some [rel_entry u ''next'', u, ''next'']"
proof -
  have "FindStringSubmatch (rel_entry u ''next'') = Some [rel_entry u ''next'', u, ''next'']"
    using match_here_next [OF assms(2)] by (simp add: rel_entry_def)
  with FindStringSubmatch_skip [OF assms(1)] show ?thesis by simp
qed

lemma Split_no_sep: "sep \<notin> set s \<Longrightarrow> Split s sep = [s]"
  by (induction s) auto

lemma nextLink_single_next:
  assumes "nl \<notin> set u" and "CHR '','' \<notin> set u" and "header ''Link'' = Some (rel_entry u ''next'' # ls)"
  shows "nextLink header = Returns u"
proof -
  have "CHR '','' \<notin> set (rel_entry u ''next'')"
    using assms(2) by (simp add: rel_entry_def dq_def)
  then have "Split (rel_entry u ''next'') (CHR '','') = [rel_entry u ''next'']"
    by (rule Split_no_sep)
  moreover have "FindStringSubmatch (rel_entry u ''next'') = Some [rel_entry u ''next'', u, ''next'']"
    using FindStringSubmatch_next [of "[]" u] assms(1) by simp
  ultimately show ?thesis
    using assms(3) by (simp add: nextLink_def scanLinks_def)
qed


text \<open>
  C9: in a drain iteration whose response has, in the first value of its \<open>Link\<close>
  header, one or several entries with \<open>rel="next"\<close>, the next URL the loop reads is
  the URL of the last of them in parse order, and the drain goes on from that URL with
  the page's records appended.
\<close>

theorem drain_follows_last_next_entry:
  assumes "url \<noteq> []"
    and "fetchCards env url w = ((cards, header, None), w1)"
    and "header ''Link'' = Some (l0 # ls)"
    and "next_entries (Split l0 (CHR '','')) \<noteq> []"
  shows "nextLink header = Returns (last (next_entries (Split l0 (CHR '','')))) 
       \<and> drain env url acc w
         = drain env (last (next_entries (Split l0 (CHR '','')))) (append_slice acc cards) w1"
proof -
  from assms(3,4) have n: "nextLink header = Returns (last (next_entries (Split l0 (CHR '',''))))"
    by (simp add: nextLink_first_value scanLinks_last)
  from drain_step [OF assms(1,2) n] n show ?thesis by simp
qed


theorem drain_follows_last_next_entry_witness:
  "next_entries
     (Split (rel_entry ''u1'' ''next'' @ '', '' @ rel_entry ''u2'' ''next'' @ '', '' @ rel_entry ''u3'' ''last'')
        (CHR '','')) = [''u1'', ''u2'']
   \<and> All_query
       (mock [page [(''Link'', [rel_entry ''u1'' ''next'' @ '', '' @ rel_entry ''u2'' ''next''
                                 @ '', '' @ rel_entry ''u3'' ''last''])] ''a'',
              page [] ''b''])
       world0 0
     = Some (Returns (Some [Some CHR ''a'', Some CHR ''b''], None),
             world0\<lparr>requests := [queryURL @ ''cards?'', ''u2'']\<rparr>)"
proof -
  let ?l = "rel_entry ''u1'' ''next'' @ '', '' @ rel_entry ''u2'' ''next'' @ '', '' @ rel_entry ''u3'' ''last''"
  let ?e = "mock [page [(''Link'', [?l])] ''a'', page [] ''b'']"
  let ?w1 = "world0\<lparr>requests := [queryURL @ ''cards?'']\<rparr>"
  have u: "queryURL @ ''cards?'' @ Encode ?e (values_of (cells world0 0)) = queryURL @ ''cards?''"
    by (simp add: mock_simps)
  have ne: "queryURL @ ''cards?'' \<noteq> []"
    by (rule queryURL_not_empty)
  have f: "fetchCards ?e (queryURL @ ''cards?'') world0
      = ((Some [Some CHR ''a''], map_of [(''Link'', [?l])], None), ?w1)"
    by (simp add: mock_simps)
  have h: "map_of [(''Link'', [?l])] ''Link'' = Some (?l # [])"
    by simp
  have es: "next_entries (Split ?l (CHR '','')) = [''u1'', ''u2'']"
    by (simp add: next_entries_def link_simps)
  then have nn: "next_entries (Split ?l (CHR '','')) \<noteq> []"
    by simp
  have f2: "fetchCards ?e ''u2'' ?w1
      = ((Some [Some CHR ''b''], map_of [], None),
         world0\<lparr>requests := [queryURL @ ''cards?'', ''u2'']\<rparr>)"
    by (simp add: mock_simps)
  have n2: "nextLink (map_of []) = Returns []"
    by (simp add: link_simps)
  have a: "append_slice (append_slice None (Some [Some CHR ''a''])) (Some [Some CHR ''b''])
      = Some [Some CHR ''a'', Some CHR ''b'']"
    by (simp add: append_slice_def elems_def)
  have "All_query ?e world0 0 = drain ?e (queryURL @ ''cards?'') None world0"
    unfolding All_query_def Let_def u ..
  also have "\<dots> = drain ?e ''u2'' (append_slice None (Some [Some CHR ''a''])) ?w1"
    using drain_follows_last_next_entry [OF ne f h nn, of None] unfolding es by simp
  also have "\<dots> = drain ?e [] (append_slice (append_slice None (Some [Some CHR ''a''])) (Some [Some CHR ''b'']))
      (world0\<lparr>requests := [queryURL @ ''cards?'', ''u2'']\<rparr>)"
    by (rule drain_step [OF _ f2 n2]) simp
  finally show ?thesis using es by (simp add: drain_stop a)
qed

text \<open>
  C10: in a drain iteration the loop reads the next URL out of the first value of the
  \<open>Link\<close> header only. Whatever the later values of the header hold, a \<open>rel="next"\<close>
  entry included, the next URL is the one read from the first value; and when the first
  value has no \<open>rel="next"\<close> entry, the drain ends with this page, as it does with no
  next link at all.
\<close>

theorem drain_reads_first_link_value_only:
  assumes "url \<noteq> []"
    and "fetchCards env url w = ((cards, header, None), w1)"
    and "header ''Link'' = Some (l0 # ls)"
  shows "nextLink header = Returns (scanLinks (Split l0 (CHR '','')))
       \<and> nextLink header = nextLink (header(''Link'' \<mapsto> [l0]))
       \<and> (next_entries (Split l0 (CHR '','')) = []
            \<longrightarrow> drain env url acc w = Some (Returns (append_slice acc cards, None), w1))"
proof -
  from assms(3) have n: "nextLink header = Returns (scanLinks (Split l0 (CHR '','')))"
    by (rule nextLink_first_value)
  have m: "nextLink (header(''Link'' \<mapsto> [l0])) = Returns (scanLinks (Split l0 (CHR '','')))"
    by (simp add: nextLink_def)
  have "drain env url acc w = Some (Returns (append_slice acc cards, None), w1)"
    if "next_entries (Split l0 (CHR '','')) = []"
  proof -
    from that n have "nextLink header = Returns []"
      by (simp add: scanLinks_last)
    from drain_step [OF assms(1,2) this] show ?thesis
      by (simp add: drain_stop)
  qed
  with n m show ?thesis by simp
qed

theorem drain_reads_first_link_value_only_witness:
  "next_entries (Split (rel_entry ''u1'' ''prev'') (CHR '','')) = []
   \<and> next_entries (Split (rel_entry ''u2'' ''next'') (CHR '','')) = [''u2'']
   \<and> All_query
       (mock [page [(''Link'', [rel_entry ''u1'' ''prev'', rel_entry ''u2'' ''next''])] ''a'',
              page [] ''b''])
       world0 0
     = Some (Returns (Some [Some CHR ''a''], None), world0\<lparr>requests := [queryURL @ ''cards?'']\<rparr>)"
proof -
  let ?e = "mock [page [(''Link'', [rel_entry ''u1'' ''prev'', rel_entry ''u2'' ''next''])] ''a'',
                page [] ''b'']"
  let ?w1 = "world0\<lparr>requests := [queryURL @ ''cards?'']\<rparr>"
  have u: "queryURL @ ''cards?'' @ Encode ?e (values_of (cells world0 0)) = queryURL @ ''cards?''"
    by (simp add: mock_simps)
  have ne: "queryURL @ ''cards?'' \<noteq> []"
    by (rule queryURL_not_empty)
  have f: "fetchCards ?e (queryURL @ ''cards?'') world0
      = ((Some [Some CHR ''a''],
          map_of [(''Link'', [rel_entry ''u1'' ''prev'', rel_entry ''u2'' ''next''])], None), ?w1)"
    by (simp add: mock_simps)
  have h: "map_of [(''Link'', [rel_entry ''u1'' ''prev'', rel_entry ''u2'' ''next''])] ''Link''
      = Some (rel_entry ''u1'' ''prev'' # [rel_entry ''u2'' ''next''])"
    by simp
  have e1: "next_entries (Split (rel_entry ''u1'' ''prev'') (CHR '','')) = []"
    by (simp add: next_entries_def link_simps)
  have e2: "next_entries (Split (rel_entry ''u2'' ''next'') (CHR '','')) = [''u2'']"
    by (simp add: next_entries_def link_simps)
  have a: "append_slice None (Some [Some CHR ''a'']) = Some [Some CHR ''a'']"
    by (simp add: append_slice_def elems_def)
  have "All_query ?e world0 0 = drain ?e (queryURL @ ''cards?'') None world0"
    unfolding All_query_def Let_def u ..
  also have "\<dots> = Some (Returns (append_slice None (Some [Some CHR ''a'']), None), ?w1)"
    using drain_reads_first_link_value_only [OF ne f h, of None] e1 by simp
  finally show ?thesis using e1 e2 by (simp add: a)
qed

end
